theory Spec2Isabelle
  imports Main
begin

section \<open>Exceptions\<close>

text \<open>
  The exceptions the program can meet. Every constructor stands for a subclass of Python's
  \<open>Exception\<close>, so a handler \<open>except Exception\<close> catches each of them; the argument is
  the message that \<open>str(e)\<close> gives. A computation that may raise has the type
  \<open>exn + 'a\<close>, with \<open>Inl\<close> for the raised exception. The calls of \<open>st.write\<close>, which
  print progress on the page, are left out.
\<close>

datatype exn =
    VideoUnavailable string
  | TranscriptsDisabled string
  | NameError string
  | ValueError string
  | OSError string
  | OtherException string

fun str_exn :: "exn \<Rightarrow> string" where
  "str_exn (VideoUnavailable m) = m"
| "str_exn (TranscriptsDisabled m) = m"
| "str_exn (NameError m) = m"
| "str_exn (ValueError m) = m"
| "str_exn (OSError m) = m"
| "str_exn (OtherException m) = m"

definition bind_exn :: "exn + 'a \<Rightarrow> ('a \<Rightarrow> exn + 'b) \<Rightarrow> exn + 'b" where
  "bind_exn m f = (case m of Inl e \<Rightarrow> Inl e | Inr x \<Rightarrow> f x)"

section \<open>Strings\<close>

abbreviation NL :: char where
  "NL \<equiv> CHR 0x0A"

text \<open>\<open>s.startswith(p)\<close> and \<open>p in s\<close> on strings.\<close>

fun startswith :: "string \<Rightarrow> string \<Rightarrow> bool" where
  "startswith s [] = True"
| "startswith [] (p # ps) = False"
| "startswith (c # cs) (p # ps) = (c = p \<and> startswith cs ps)"

fun contains :: "string \<Rightarrow> string \<Rightarrow> bool" where
  "contains [] sub = (sub = [])"
| "contains (c # cs) sub = (startswith (c # cs) sub \<or> contains cs sub)"

text \<open>
  The character classes of the regular expressions, on 8-bit characters: \<open>\d\<close> is a
  decimal digit, \<open>\s\<close> and \<open>str.strip()\<close> take the white space of \<open>str.isspace\<close>
  (tab, line feed, vertical tab, form feed, carriage return, the separators 0x1C to 0x1F,
  space, 0x85 and 0xA0).
\<close>

definition is_digit :: "char \<Rightarrow> bool" where
  "is_digit c = (c \<in> set ''0123456789'')"

definition is_space :: "char \<Rightarrow> bool" where
  "is_space c = ((of_char c :: nat) \<in> set [9, 10, 11, 12, 13, 28, 29, 30, 31, 32, 133, 160])"

definition strip :: "string \<Rightarrow> string" where
  "strip s = rev (dropWhile is_space (rev (dropWhile is_space s)))"

section \<open>Regular-expression substitution\<close>

text \<open>
  \<open>re.sub(pattern, repl, text)\<close> replaces the leftmost non-overlapping matches, scanning
  from the left. A pattern is given by its matcher: at a position, told whether the position
  is the beginning of a line (for \<open>^\<close> under \<open>re.MULTILINE\<close>) and given the rest of the
  text, the matcher returns the length of the match that starts there. None of the patterns of
  the program matches the empty string; a length of 0 is no match.
\<close>

type_synonym matcher = "bool \<Rightarrow> string \<Rightarrow> nat option"

function re_sub :: "matcher \<Rightarrow> string \<Rightarrow> bool \<Rightarrow> string \<Rightarrow> string" where
  "re_sub m repl bol [] = []"
| "re_sub m repl bol (c # cs) =
     (case m bol (c # cs) of
        None \<Rightarrow> c # re_sub m repl (c = NL) cs
      | Some n \<Rightarrow>
          (if n = 0 then c # re_sub m repl (c = NL) cs
           else repl @ re_sub m repl (last (take n (c # cs)) = NL) (drop (n - 1) cs)))"
  by pat_completeness auto
termination
  by (relation "measure (\<lambda>(m, repl, bol, s). length s)") auto

text \<open>A pattern that is a sequence of one-character atoms: a digit or a literal.\<close>

datatype atom = Digit | Lit char

fun atom_ok :: "atom \<Rightarrow> char \<Rightarrow> bool" where
  "atom_ok Digit c = is_digit c"
| "atom_ok (Lit l) c = (c = l)"

fun match_atoms :: "atom list \<Rightarrow> string \<Rightarrow> bool" where
  "match_atoms [] s = True"
| "match_atoms (a # as) [] = False"
| "match_atoms (a # as) (c # cs) = (atom_ok a c \<and> match_atoms as cs)"

definition atoms_matcher :: "atom list \<Rightarrow> matcher" where
  "atoms_matcher pat bol s = (if match_atoms pat s then Some (length pat) else None)"

text \<open>\<open>\d{2}:\d{2}:\d{2}\.\d{3}\<close>\<close>

definition clock_pattern :: "atom list" where
  "clock_pattern =
     [Digit, Digit, Lit CHR '':'', Digit, Digit, Lit CHR '':'', Digit, Digit, Lit CHR ''.'',
      Digit, Digit, Digit]"

text \<open>\<open>\d{2}:\d{2}:\d{2}\.\d{3} --> \d{2}:\d{2}:\d{2}\.\d{3}\<close>\<close>

definition timestamp_pattern :: "atom list" where
  "timestamp_pattern = clock_pattern @ map Lit '' --> '' @ clock_pattern"

text \<open>\<open>WEBVTT\n\n\<close>\<close>

definition header_pattern :: "atom list" where
  "header_pattern = map Lit (''WEBVTT'' @ [NL, NL])"

text \<open>
  \<open><[^>]+>\<close>: an opening bracket, the longest non-empty run of characters other than the
  closing bracket (line feeds included), and a closing bracket. A shorter run is followed by
  a character of the run, so backtracking finds nothing more.
\<close>

definition tag_matcher :: matcher where
  "tag_matcher bol s =
     (case s of
        [] \<Rightarrow> None
      | c # r \<Rightarrow>
          (if c = CHR ''<'' then
             (let body = takeWhile (\<lambda>x. x \<noteq> CHR ''>'') r in
              if body \<noteq> [] \<and> length body < length r then Some (length body + 2) else None)
           else None))"

text \<open>\<open>c+\<close> for a character class \<open>c\<close>: the longest non-empty run.\<close>

definition plus_matcher :: "(char \<Rightarrow> bool) \<Rightarrow> matcher" where
  "plus_matcher P bol s =
     (let run = takeWhile P s in if run = [] then None else Some (length run))"

text \<open>\<open>^\d+\n\<close> under \<open>re.MULTILINE\<close>: at the beginning of a line, digits and a line feed.\<close>

definition linenum_matcher :: matcher where
  "linenum_matcher bol s =
     (if bol then
        (let run = takeWhile is_digit s in
         if run \<noteq> [] \<and> startswith (drop (length run) s) [NL] then Some (length run + 1)
         else None)
      else None)"

section \<open>The caption markup normalizer\<close>

text \<open>Lines 116 to 124 of \<open>extract_text_from_vtt\<close>, in the order of the source.\<close>

definition clean_vtt :: "string \<Rightarrow> string" where
  "clean_vtt content =
     (let text = re_sub (atoms_matcher timestamp_pattern) [] True content;
          text = re_sub tag_matcher [] True text;
          text = re_sub (atoms_matcher header_pattern) [] True text;
          text = re_sub (plus_matcher (\<lambda>c. c = NL)) '' '' True text;
          text = re_sub linenum_matcher [] True text;
          text = re_sub (plus_matcher is_space) '' '' True text
      in strip text)"

text \<open>
  The file system as the outcome of opening and reading each path: the text of the file, or
  the exception raised.
\<close>

type_synonym filesystem = "string \<Rightarrow> exn + string"

text \<open>
  Lines 116 to 131: what \<open>extract_text_from_vtt\<close> makes of the text it has read, the
  \<open>normalize\<close> of the specification.
\<close>

definition normalize :: "string \<Rightarrow> string" where
  "normalize content =
     (let text = clean_vtt content in
      if length text < 10 then
        ''Error: Extracted text too short. VTT content: '' @ take 500 content
      else text)"

definition extract_text_from_vtt :: "filesystem \<Rightarrow> string \<Rightarrow> string" where
  "extract_text_from_vtt fs vtt_file =
     (case fs vtt_file of
        Inl e \<Rightarrow> ''Error reading VTT file: '' @ str_exn e
      | Inr content \<Rightarrow> normalize content)"

section \<open>The primary strategy: the downloader\<close>

text \<open>
  The names bound at module level of \<open>app.py\<close> (its imports, assignments and function
  definitions) and the built-in names the program refers to. A name that a function reads and
  never assigns is looked up among the globals and then the built-ins; a name found in neither
  raises \<open>NameError\<close>. The module never imports \<open>os\<close>, and it is not a built-in.
\<close>

definition module_globals :: "string list" where
  "module_globals =
     [''st'', ''genai'', ''YouTubeTranscriptApi'', ''TranscriptsDisabled'', ''VideoUnavailable'',
      ''urlparse'', ''parse_qs'', ''yt_dlp'', ''api_key'', ''prompt'', ''extract_video_id'',
      ''extract_transcript_with_ytdlp'', ''extract_text_from_vtt'',
      ''extract_transcript_details'', ''generate_gemini_content'', ''youtube_link'',
      ''video_id'', ''transcript_text'', ''summary'']"

definition builtin_names :: "string list" where
  "builtin_names = [''len'', ''str'', ''open'', ''Exception'']"

definition load_global :: "string \<Rightarrow> exn + unit" where
  "load_global name =
     (if name \<in> set module_globals \<or> name \<in> set builtin_names then Inr ()
      else Inl (NameError (''name '' @ [CHR 0x27] @ name @ [CHR 0x27] @ '' is not defined'')))"

text \<open>
  What the downloader reports for a video: the language keys of \<open>info.get('subtitles', {})\<close>
  and of \<open>info.get('automatic_captions', {})\<close>.
\<close>

record caption_info =
  subtitles :: "string list"
  automatic_captions :: "string list"

text \<open>
  A transcript of the transcript service: its language, whether it is machine-generated, and
  the outcome of fetching it (the texts of its cues, in order).
\<close>

record transcript =
  language_code :: string
  is_generated :: bool
  fetch :: "exn + string list"

text \<open>
  The world outside the program, as the outcome of each call the program makes into it:
  creating and removing the temporary directory, the downloader's \<open>extract_info\<close> and
  \<open>download\<close>, listing a directory, reading a file, and the transcript service's
  \<open>list_transcripts\<close>.
\<close>

record env =
  make_temp_dir :: "exn + string"
  remove_temp_dir :: "string \<Rightarrow> exn + unit"
  ydl_extract_info :: "string \<Rightarrow> exn + caption_info"
  ydl_download :: "string \<Rightarrow> exn + unit"
  listdir :: "string \<Rightarrow> exn + string list"
  read_file :: filesystem
  list_transcripts :: "string \<Rightarrow> exn + transcript list"

definition endswith :: "string \<Rightarrow> string \<Rightarrow> bool" where
  "endswith s suffix = startswith (rev s) (rev suffix)"

text \<open>\<open>os.path.join\<close> of two components, on POSIX.\<close>

definition os_path_join :: "string \<Rightarrow> string \<Rightarrow> string" where
  "os_path_join a b =
     (if startswith b ''/'' then b
      else if a = [] \<or> endswith a ''/'' then a @ b
      else a @ ''/'' @ b)"

text \<open>
  Lines 75 to 85 (and 89 to 99, the same statements): download, then return the text of the
  first listed file whose name ends in \<open>.en.vtt\<close>.
\<close>

definition download_and_read :: "env \<Rightarrow> string \<Rightarrow> string \<Rightarrow> exn + string" where
  "download_and_read env video_url temp_dir =
     bind_exn (ydl_download env video_url) (\<lambda>_.
     bind_exn (load_global ''os'') (\<lambda>_.
     bind_exn (listdir env temp_dir) (\<lambda>files.
       (case find (\<lambda>file. endswith file ''.en.vtt'') files of
          Some file \<Rightarrow>
            bind_exn (load_global ''os'') (\<lambda>_.
              Inr (extract_text_from_vtt (read_file env) (os_path_join temp_dir file)))
        | None \<Rightarrow> Inr ''VTT file not found''))))"

text \<open>
  The body of the \<open>with tempfile.TemporaryDirectory()\<close> block, lines 56 to 101. The
  dictionary \<open>ydl_opts\<close> is built first, and its entry \<open>outtmpl\<close> reads the name \<open>os\<close>.
\<close>

definition ytdlp_in_temp_dir :: "env \<Rightarrow> string \<Rightarrow> string \<Rightarrow> exn + string" where
  "ytdlp_in_temp_dir env video_url temp_dir =
     bind_exn (load_global ''os'') (\<lambda>_.
     bind_exn (ydl_extract_info env video_url) (\<lambda>info.
       if ''en'' \<in> set (subtitles info) then download_and_read env video_url temp_dir
       else if ''en'' \<in> set (automatic_captions info) then
         download_and_read env video_url temp_dir
       else Inr ''No English subtitles found''))"

text \<open>
  The \<open>with\<close> statement: the directory is created, the body runs, and the directory is
  removed on every exit; an exception of the removal replaces the outcome of the body.
\<close>

definition with_temp_dir :: "env \<Rightarrow> (string \<Rightarrow> exn + 'a) \<Rightarrow> exn + 'a" where
  "with_temp_dir env body =
     bind_exn (make_temp_dir env) (\<lambda>temp_dir.
       (let r = body temp_dir in
        case remove_temp_dir env temp_dir of Inl e \<Rightarrow> Inl e | Inr _ \<Rightarrow> r))"

definition extract_transcript_with_ytdlp :: "env \<Rightarrow> string \<Rightarrow> string" where
  "extract_transcript_with_ytdlp env video_url =
     (case with_temp_dir env (ytdlp_in_temp_dir env video_url) of
        Inr r \<Rightarrow> r
      | Inl e \<Rightarrow> ''yt-dlp error: '' @ str_exn e)"

section \<open>The secondary strategy: the transcript service\<close>

text \<open>
  \<open>TranscriptList.find_transcript\<close>: for each requested language in turn, the manually
  created transcript of that language, else the generated one; \<open>NoTranscriptFound\<close> when no
  language has either.
\<close>

fun find_transcript :: "transcript list \<Rightarrow> string list \<Rightarrow> exn + transcript" where
  "find_transcript ts [] = Inl (OtherException ''NoTranscriptFound'')"
| "find_transcript ts (l # ls) =
     (case find (\<lambda>t. language_code t = l \<and> \<not> is_generated t) ts of
        Some t \<Rightarrow> Inr t
      | None \<Rightarrow>
          (case find (\<lambda>t. language_code t = l \<and> is_generated t) ts of
             Some t \<Rightarrow> Inr t
           | None \<Rightarrow> find_transcript ts ls))"

text \<open>\<open>sep.join(xs)\<close>\<close>

fun join :: "string \<Rightarrow> string list \<Rightarrow> string" where
  "join sep [] = []"
| "join sep [x] = x"
| "join sep (x # y # ys) = x @ sep @ join sep (y # ys)"

text \<open>Lines 153 to 156.\<close>

definition transcript_api :: "env \<Rightarrow> string \<Rightarrow> exn + string" where
  "transcript_api env video_id =
     bind_exn (list_transcripts env video_id) (\<lambda>transcript_list.
     bind_exn (find_transcript transcript_list [''en'']) (\<lambda>transcript.
     bind_exn (fetch transcript) (\<lambda>transcript_data.
       Inr (join '' '' transcript_data))))"

section \<open>The transcript acquisition engine\<close>

text \<open>Line 146: whether the primary result is taken as transcript text.\<close>

definition ytdlp_succeeded :: "string \<Rightarrow> bool" where
  "ytdlp_succeeded result =
     (length result > 100 \<and> \<not> startswith result ''Error'' \<and> \<not> startswith result ''No'')"

text \<open>
  Lines 146 to 161: the evaluation of the primary result and the fallback. The inner handler
  is \<open>except Exception\<close>, so it takes every exception of the transcript service.
\<close>

definition evaluate_and_fall_back :: "env \<Rightarrow> string \<Rightarrow> string \<Rightarrow> exn + string" where
  "evaluate_and_fall_back env video_id result =
     (if ytdlp_succeeded result then Inr result
      else
        (case transcript_api env video_id of
           Inr transcript_text \<Rightarrow> Inr transcript_text
         | Inl api_error \<Rightarrow> Inr (''Both methods failed. yt-dlp result: '' @ result)))"

text \<open>
  \<open>extract_transcript_details\<close>: the body of the outer \<open>try\<close>, and its three handlers in
  the order of the source.
\<close>

definition extract_transcript_details :: "env \<Rightarrow> string \<Rightarrow> string" where
  "extract_transcript_details env video_id =
     (let video_url = ''https://www.youtube.com/watch?v='' @ video_id in
      case evaluate_and_fall_back env video_id (extract_transcript_with_ytdlp env video_url) of
        Inr r \<Rightarrow> r
      | Inl (VideoUnavailable m) \<Rightarrow> ''Error: The video is unavailable or private.''
      | Inl (TranscriptsDisabled m) \<Rightarrow> ''Error: Transcripts are disabled for this video.''
      | Inl e \<Rightarrow> ''Error: '' @ str_exn e)"

section \<open>The presentation shell\<close>

text \<open>
  Lines 193 to 200: what the shell does with a video identifier. It shows the value as an
  error, or hands it to the summarization client.
\<close>

datatype shell_action = DisplayError string | InvokeSummarizer string

definition notes_for_video :: "env \<Rightarrow> string \<Rightarrow> shell_action" where
  "notes_for_video env video_id =
     (let transcript_text = extract_transcript_details env video_id in
      if startswith transcript_text ''Error:'' then DisplayError transcript_text
      else InvokeSummarizer transcript_text)"

section \<open>The identifier extractor\<close>

text \<open>
  The result of \<open>urlparse\<close>, and the two functions of \<open>urllib.parse\<close> that the extractor
  calls. They belong to the standard library, so the extractor takes them as a parameter; each
  may raise.
\<close>

record parse_result =
  scheme :: string
  netloc :: string
  path :: string
  params :: string
  query :: string
  fragment :: string

record urllib =
  urlparse :: "string \<Rightarrow> exn + parse_result"
  parse_qs :: "string \<Rightarrow> exn + (string \<rightharpoonup> string list)"

text \<open>Lines 33 to 45, the body of the \<open>try\<close>.\<close>

definition extract_video_id_body :: "urllib \<Rightarrow> string \<Rightarrow> exn + string option" where
  "extract_video_id_body lib url =
     bind_exn (urlparse lib url) (\<lambda>parsed_url.
       if contains (netloc parsed_url) ''youtu.be'' then
         (let video_id = drop 1 (path parsed_url) in
          Inr (if video_id \<noteq> [] then Some video_id else None))
       else if contains (netloc parsed_url) ''youtube.com''
               \<or> contains (netloc parsed_url) ''www.youtube.com'' then
         bind_exn (parse_qs lib (query parsed_url)) (\<lambda>qs.
           (case qs ''v'' of
              None \<Rightarrow> Inr None
            | Some video_id \<Rightarrow> Inr (case video_id of [] \<Rightarrow> None | x # _ \<Rightarrow> Some x)))
       else Inr None)"

text \<open>
  \<open>extract_video_id\<close>: the body under its handler \<open>except Exception: return None\<close>. The
  result keeps the type of a computation that may raise, so that returning normally is a
  statement about the function.
\<close>

definition extract_video_id :: "urllib \<Rightarrow> string \<Rightarrow> exn + string option" where
  "extract_video_id lib url =
     (case extract_video_id_body lib url of Inl e \<Rightarrow> Inr None | Inr r \<Rightarrow> Inr r)"

subsection \<open>The standard library's URL parsing\<close>

text \<open>
  A model of \<open>urllib.parse\<close> of CPython 3.11 and later on 8-bit characters. Two parts of
  the library are parameters: \<open>netloc_ok\<close>, whether the validation of a network location
  that holds both square brackets accepts it (it parses IP literals, and its details differ
  between releases), and \<open>pct\<close>, the decoding of a string that holds percent escapes (it
  decodes UTF-8).
\<close>

definition ascii_lowercase :: string where
  "ascii_lowercase = ''abcdefghijklmnopqrstuvwxyz''"

definition ascii_uppercase :: string where
  "ascii_uppercase = ''ABCDEFGHIJKLMNOPQRSTUVWXYZ''"

definition scheme_chars :: string where
  "scheme_chars = ascii_lowercase @ ascii_uppercase @ ''0123456789'' @ ''+-.''"

definition lower_char :: "char \<Rightarrow> char" where
  "lower_char c =
     (case map_of (zip ascii_uppercase ascii_lowercase) c of Some l \<Rightarrow> l | None \<Rightarrow> c)"

text \<open>
  \<open>s.split(c, 1)\<close> when \<open>c\<close> occurs in \<open>s\<close>; the whole of \<open>s\<close> and the empty string
  otherwise.
\<close>

definition split1 :: "char \<Rightarrow> string \<Rightarrow> string \<times> string" where
  "split1 c s = (takeWhile (\<lambda>x. x \<noteq> c) s, drop 1 (dropWhile (\<lambda>x. x \<noteq> c) s))"

text \<open>\<open>s.split(c)\<close>\<close>

fun split_on :: "char \<Rightarrow> string \<Rightarrow> string list" where
  "split_on c [] = [[]]"
| "split_on c (x # xs) =
     (if x = c then [] # split_on c xs
      else (case split_on c xs of [] \<Rightarrow> [[x]] | y # ys \<Rightarrow> (x # y) # ys))"

text \<open>The scheme: a letter, then scheme characters, up to the first colon.\<close>

definition split_scheme :: "string \<Rightarrow> string \<times> string" where
  "split_scheme url =
     (let pre = takeWhile (\<lambda>c. c \<noteq> CHR '':'') url in
      if length pre < length url \<and> pre \<noteq> []
         \<and> hd pre \<in> set (ascii_lowercase @ ascii_uppercase)
         \<and> (\<forall>c \<in> set pre. c \<in> set scheme_chars)
      then (map lower_char pre, drop (length pre + 1) url)
      else ([], url))"

text \<open>\<open>_splitnetloc(url, 2)\<close>: after the two slashes, up to the first of \<open>/?#\<close>.\<close>

definition splitnetloc :: "string \<Rightarrow> string \<times> string" where
  "splitnetloc url =
     (let r = drop 2 url in
      (takeWhile (\<lambda>c. c \<notin> set ''/?#'') r, dropWhile (\<lambda>c. c \<notin> set ''/?#'') r))"

text \<open>
  \<open>urlsplit\<close>: leading control characters and spaces are stripped, tabs and line ends are
  removed, then scheme, network location, fragment and query are split off in this order. The
  check of a non-ASCII network location never raises on 8-bit characters.
\<close>

definition urlsplit :: "(string \<Rightarrow> bool) \<Rightarrow> string \<Rightarrow> exn + parse_result" where
  "urlsplit netloc_ok url0 =
     (let url = dropWhile (\<lambda>c. (of_char c :: nat) \<le> 32) url0;
          url = filter (\<lambda>c. c \<notin> set [CHR 0x09, CHR 0x0D, NL]) url;
          (sch, url) = split_scheme url;
          (nl, url) = (if take 2 url = ''//'' then splitnetloc url else ([], url))
      in
      if (CHR ''['' \<in> set nl \<and> CHR '']'' \<notin> set nl) \<or> (CHR '']'' \<in> set nl \<and> CHR ''['' \<notin> set nl)
      then Inl (ValueError ''Invalid IPv6 URL'')
      else if CHR ''['' \<in> set nl \<and> CHR '']'' \<in> set nl \<and> \<not> netloc_ok nl
      then Inl (ValueError ''Invalid IPv6 URL'')
      else
        (let (url, frag) = split1 CHR ''#'' url;
             (url, qry) = split1 CHR ''?'' url
         in Inr \<lparr>scheme = sch, netloc = nl, path = url, params = [], query = qry,
                  fragment = frag\<rparr>))"

definition uses_params :: "string list" where
  "uses_params =
     [[], ''ftp'', ''hdl'', ''prospero'', ''http'', ''imap'', ''https'', ''shttp'', ''rtsp'',
      ''rtspu'', ''sip'', ''sips'', ''mms'', ''sftp'', ''tel'']"

text \<open>\<open>_splitparams\<close>: the parameters of the last path segment, after its first semicolon.\<close>

definition splitparams :: "string \<Rightarrow> string \<times> string" where
  "splitparams url =
     (if CHR ''/'' \<in> set url then
        (let seg = rev (takeWhile (\<lambda>c. c \<noteq> CHR ''/'') (rev url));
             front = take (length url - length seg) url
         in if CHR '';'' \<in> set seg then
              (front @ takeWhile (\<lambda>c. c \<noteq> CHR '';'') seg,
               drop 1 (dropWhile (\<lambda>c. c \<noteq> CHR '';'') seg))
            else (url, []))
      else split1 CHR '';'' url)"

definition urlparse_model :: "(string \<Rightarrow> bool) \<Rightarrow> string \<Rightarrow> exn + parse_result" where
  "urlparse_model netloc_ok url =
     bind_exn (urlsplit netloc_ok url) (\<lambda>r.
       if scheme r \<in> set uses_params \<and> CHR '';'' \<in> set (path r) then
         (let (p, prm) = splitparams (path r) in Inr (r\<lparr>path := p, params := prm\<rparr>))
       else Inr r)"

text \<open>\<open>unquote\<close>: a string without a percent sign is returned as it is.\<close>

definition unquote :: "(string \<Rightarrow> string) \<Rightarrow> string \<Rightarrow> string" where
  "unquote pct s = (if CHR ''%'' \<notin> set s then s else pct s)"

definition plus_to_space :: "string \<Rightarrow> string" where
  "plus_to_space s = map (\<lambda>c. if c = CHR ''+'' then CHR '' '' else c) s"

text \<open>
  One field of a query string under \<open>parse_qsl\<close> with its default arguments: an empty field,
  a field without an equals sign and a field with an empty value are skipped.
\<close>

definition parse_field :: "(string \<Rightarrow> string) \<Rightarrow> string \<Rightarrow> (string \<times> string) option" where
  "parse_field pct name_value =
     (if name_value = [] then None
      else if CHR ''='' \<notin> set name_value then None
      else
        (let (n, v) = split1 CHR ''='' name_value in
         if v \<noteq> [] then Some (unquote pct (plus_to_space n), unquote pct (plus_to_space v))
         else None))"

definition parse_qsl :: "(string \<Rightarrow> string) \<Rightarrow> string \<Rightarrow> (string \<times> string) list" where
  "parse_qsl pct qs =
     List.map_filter (parse_field pct) (if qs = [] then [] else split_on CHR ''&'' qs)"

text \<open>\<open>parse_qs\<close>: the values of each name, in the order of the query string.\<close>

definition add_pair ::
  "(string \<rightharpoonup> string list) \<Rightarrow> string \<times> string \<Rightarrow> (string \<rightharpoonup> string list)" where
  "add_pair d nv =
     (case d (fst nv) of
        Some vs \<Rightarrow> d(fst nv \<mapsto> vs @ [snd nv])
      | None \<Rightarrow> d(fst nv \<mapsto> [snd nv]))"

definition parse_qs_model ::
  "(string \<Rightarrow> string) \<Rightarrow> string \<Rightarrow> exn + (string \<rightharpoonup> string list)" where
  "parse_qs_model pct qs = Inr (foldl add_pair Map.empty (parse_qsl pct qs))"

definition cpython_urllib :: "(string \<Rightarrow> bool) \<Rightarrow> (string \<Rightarrow> string) \<Rightarrow> urllib" where
  "cpython_urllib netloc_ok pct =
     \<lparr>urlparse = urlparse_model netloc_ok, parse_qs = parse_qs_model pct\<rparr>"

text \<open>
  The property \<open>hostname\<close> of a parse result: the part of the network location after the
  last \<open>@\<close>, up to the first colon (or between square brackets), in lower case up to a
  percent sign; \<open>None\<close> when it is empty. What precedes the \<open>@\<close> is the user information.
\<close>

definition str_lower_char :: "char \<Rightarrow> char" where
  "str_lower_char c =
     (let n = (of_char c :: nat) in
      if (65 \<le> n \<and> n \<le> 90) \<or> (192 \<le> n \<and> n \<le> 222 \<and> n \<noteq> 215) then char_of (n + 32) else c)"

definition hostname :: "parse_result \<Rightarrow> string option" where
  "hostname p =
     (let hostinfo = rev (takeWhile (\<lambda>c. c \<noteq> CHR ''@'') (rev (netloc p)));
          name =
            (if CHR ''['' \<in> set hostinfo then
               takeWhile (\<lambda>c. c \<noteq> CHR '']'') (drop 1 (dropWhile (\<lambda>c. c \<noteq> CHR ''['') hostinfo))
             else takeWhile (\<lambda>c. c \<noteq> CHR '':'') hostinfo)
      in if name = [] then None
         else Some (map str_lower_char (takeWhile (\<lambda>c. c \<noteq> CHR ''%'') name)
                      @ dropWhile (\<lambda>c. c \<noteq> CHR ''%'') name))"

section \<open>Cue markup and flat text\<close>

text \<open>Whether a pattern matches somewhere in a text, scanning as \<open>re_sub\<close> does.\<close>

fun has_match :: "matcher \<Rightarrow> bool \<Rightarrow> string \<Rightarrow> bool" where
  "has_match m bol [] = False"
| "has_match m bol (c # cs) =
     ((case m bol (c # cs) of None \<Rightarrow> False | Some n \<Rightarrow> 0 < n) \<or> has_match m (c = NL) cs)"

text \<open>
  A text without cue markup holds no timestamp range, no inline tag, no format header and no
  cue number on a line of its own.
\<close>

definition no_cue_markup :: "string \<Rightarrow> bool" where
  "no_cue_markup x =
     (\<not> has_match (atoms_matcher timestamp_pattern) True x
      \<and> \<not> has_match tag_matcher True x
      \<and> \<not> has_match (atoms_matcher header_pattern) True x
      \<and> \<not> has_match linenum_matcher True x)"

text \<open>
  Flat text: a single line that starts and ends with a character other than white space, and
  whose only white space is one blank between two such characters.
\<close>

fun flat :: "string \<Rightarrow> bool" where
  "flat [] = True"
| "flat [c] = (\<not> is_space c)"
| "flat (c # d # ds) =
     (\<not> is_space c \<and> (if d = CHR '' '' then ds \<noteq> [] \<and> flat ds else flat (d # ds)))"

section \<open>Sample inputs\<close>

text \<open>
  A caption document of three cues; each has its number, its timestamp range and its text,
  two of them with inline tags.
\<close>

definition sample_vtt :: string where
  "sample_vtt =
     ''WEBVTT'' @ [NL, NL] @
     ''1'' @ [NL] @ ''00:00:01.000 --> 00:00:02.000'' @ [NL] @ ''<b>hello</b> world'' @ [NL, NL] @
     ''2'' @ [NL] @ ''00:00:02.000 --> 00:00:03.000'' @ [NL] @ ''second <i>cue</i>'' @ [NL, NL] @
     ''3'' @ [NL] @ ''00:00:03.000 --> 00:00:04.000'' @ [NL] @ ''third cue'' @ [NL]"

text \<open>
  A world in which the temporary directory, the downloader and the file system all work and
  the video has English subtitles; the transcript service answers \<open>api\<close>.
\<close>

definition sample_env :: "(exn + transcript list) \<Rightarrow> env" where
  "sample_env api =
     \<lparr>make_temp_dir = Inr ''/tmp/tmpk3v9'',
      remove_temp_dir = (\<lambda>_. Inr ()),
      ydl_extract_info = (\<lambda>_. Inr \<lparr>subtitles = [''en''], automatic_captions = [''en'']\<rparr>),
      ydl_download = (\<lambda>_. Inr ()),
      listdir = (\<lambda>_. Inr [''Sample video.en.vtt'']),
      read_file = (\<lambda>_. Inr sample_vtt),
      list_transcripts = (\<lambda>_. api)\<rparr>"

definition english_transcript :: "exn + string list \<Rightarrow> transcript" where
  "english_transcript r = \<lparr>language_code = ''en'', is_generated = False, fetch = r\<rparr>"

text \<open>
  A canonical watch URL: the query holds the fields \<open>before\<close>, then \<open>v=ident\<close>, then
  \<open>rest\<close> (further fields, or a fragment).
\<close>

definition query_field :: "string \<times> string \<Rightarrow> string" where
  "query_field kv = fst kv @ ''='' @ snd kv"

definition watch_url :: "(string \<times> string) list \<Rightarrow> string \<Rightarrow> string \<Rightarrow> string" where
  "watch_url before ident rest =
     ''https://www.youtube.com/watch?'' @ concat (map (\<lambda>kv. query_field kv @ ''&'') before)
       @ ''v='' @ ident @ rest"

text \<open>The characters of a video identifier: letters, digits, hyphen and underscore.\<close>

definition id_char :: "char \<Rightarrow> bool" where
  "id_char c = (c \<in> set (ascii_lowercase @ ascii_uppercase @ ''0123456789'' @ ''-_''))"

text \<open>
  A further query field that precedes \<open>v\<close>: its name, once decoded, is not \<open>v\<close>, and
  neither name nor value holds a separator of the URL or a character that \<open>urlsplit\<close>
  removes.
\<close>

definition other_field :: "(string \<Rightarrow> string) \<Rightarrow> string \<times> string \<Rightarrow> bool" where
  "other_field pct kv =
     (unquote pct (plus_to_space (fst kv)) \<noteq> ''v''
      \<and> set (fst kv) \<inter> set (''&=#'' @ [CHR 0x09, CHR 0x0D, NL]) = {}
      \<and> set (snd kv) \<inter> set (''&#'' @ [CHR 0x09, CHR 0x0D, NL]) = {})"

section \<open>Properties of the transcript acquisition engine and of the identifier extractor\<close>


lemma load_global_os:
  "load_global ''os'' = Inl (NameError ''name 'os' is not defined'')"
  by (simp add: load_global_def module_globals_def builtin_names_def)

lemma ytdlp_in_temp_dir_raises:
  "ytdlp_in_temp_dir env video_url temp_dir = Inl (NameError ''name 'os' is not defined'')"
  by (simp add: ytdlp_in_temp_dir_def load_global_os bind_exn_def)

lemma with_temp_dir_raises:
  "\<exists>e'. with_temp_dir env (\<lambda>d. Inl e) = Inl e'"
  by (auto simp: with_temp_dir_def bind_exn_def Let_def split: sum.splits)

lemma ytdlp_error:
  "\<exists>msg. extract_transcript_with_ytdlp env video_url = ''yt-dlp error: '' @ msg"
proof -
  have "ytdlp_in_temp_dir env video_url = (\<lambda>d. Inl (NameError ''name 'os' is not defined''))"
    by (rule ext) (rule ytdlp_in_temp_dir_raises)
  then obtain e' where "with_temp_dir env (ytdlp_in_temp_dir env video_url) = Inl e'"
    using with_temp_dir_raises by metis
  then show ?thesis by (simp add: extract_transcript_with_ytdlp_def)
qed

lemma ytdlp_name_error:
  assumes "make_temp_dir env = Inr d" "remove_temp_dir env d = Inr ()"
  shows "extract_transcript_with_ytdlp env video_url = ''yt-dlp error: name 'os' is not defined''"
  using assms
  by (simp add: extract_transcript_with_ytdlp_def with_temp_dir_def bind_exn_def ytdlp_in_temp_dir_raises)

lemma details_cases:
  "extract_transcript_details env video_id =
     (let result = extract_transcript_with_ytdlp env (''https://www.youtube.com/watch?v='' @ video_id) in
      if ytdlp_succeeded result then result
      else case transcript_api env video_id of
             Inr t \<Rightarrow> t
           | Inl e \<Rightarrow> ''Both methods failed. yt-dlp result: '' @ result)"
  by (simp add: extract_transcript_details_def evaluate_and_fall_back_def Let_def split: sum.splits)

lemma startswith_append: "startswith (p @ s) p"
  by (induction p) auto

lemma sample_env_ytdlp:
  "extract_transcript_with_ytdlp (sample_env api) video_url = ''yt-dlp error: name 'os' is not defined''"
  by (rule ytdlp_name_error [where d = "''/tmp/tmpk3v9''"]) (simp_all add: sample_env_def)

lemma sample_not_succeeded: "\<not> ytdlp_succeeded ''yt-dlp error: name 'os' is not defined''"
  by (simp add: ytdlp_succeeded_def)

text \<open>
  Claim C1. When the transcript service raises "video unavailable" or "transcripts disabled",
  the source means to return the dedicated message (its outer handlers, lines 163 to 166), but
  the inner handler \<open>except Exception\<close> of line 159 takes the exception first: the result is
  the composite value of line 161, not the dedicated message.
\<close>
theorem unavailable_swallowed_by_inner_handler:
  "extract_transcript_details (sample_env (Inl (VideoUnavailable ''The video is no longer available''))) ''abc123''
     = ''Both methods failed. yt-dlp result: yt-dlp error: name 'os' is not defined''
   \<and> extract_transcript_details (sample_env (Inl (TranscriptsDisabled ''Subtitles are disabled for this video''))) ''abc123''
     = ''Both methods failed. yt-dlp result: yt-dlp error: name 'os' is not defined''"
  by code_simp

text \<open>
  Claim C3. The shell shows a value as an error when it starts with \<open>Error:\<close>. The composite
  value of line 161 starts with \<open>Both methods failed\<close>, so when both strategies fail the shell
  hands the failure value to the summarization client.
\<close>
theorem composite_failure_reaches_summarizer:
  "notes_for_video (sample_env (Inr [])) ''abc123''
     = InvokeSummarizer ''Both methods failed. yt-dlp result: yt-dlp error: name 'os' is not defined''"
  by code_simp

text \<open>
  Claim C4, as stated, fails where the transcript service returns no cue: the joined text is
  empty, and it is returned as the transcript, not as a composite failure value.
\<close>
theorem empty_secondary_text_returned:
  "transcript_api (sample_env (Inr [english_transcript (Inr [])])) ''abc123'' = Inr []
   \<and> extract_transcript_details (sample_env (Inr [english_transcript (Inr [])])) ''abc123'' = []
   \<and> \<not> startswith (extract_transcript_details (sample_env (Inr [english_transcript (Inr [])])) ''abc123'') ''Both methods failed''"
  by code_simp


text \<open>
  Claim C2. In every world and for every URL the downloader strategy returns a string that
  starts with \<open>yt-dlp error:\<close>; when the temporary directory is created and removed without
  error, the string is the \<open>NameError\<close> of the name \<open>os\<close>. So a value of
  \<open>extract_transcript_details\<close> that is neither that failure string nor the composite
  failure value is the text that the transcript service returned.
\<close>
theorem ytdlp_always_fails:
  "(\<exists>msg. extract_transcript_with_ytdlp env video_url = ''yt-dlp error: '' @ msg)
   \<and> (\<forall>d. make_temp_dir env = Inr d \<and> remove_temp_dir env d = Inr () \<longrightarrow>
          extract_transcript_with_ytdlp env video_url = ''yt-dlp error: name 'os' is not defined'')
   \<and> (\<not> startswith (extract_transcript_details env video_id) ''yt-dlp error:''
        \<and> \<not> startswith (extract_transcript_details env video_id) ''Both methods failed.''
      \<longrightarrow> transcript_api env video_id = Inr (extract_transcript_details env video_id))"
proof (intro conjI allI impI)
  show "\<exists>msg. extract_transcript_with_ytdlp env video_url = ''yt-dlp error: '' @ msg"
    by (rule ytdlp_error)
next
  fix d
  assume "make_temp_dir env = Inr d \<and> remove_temp_dir env d = Inr ()"
  then show "extract_transcript_with_ytdlp env video_url = ''yt-dlp error: name 'os' is not defined''"
    by (simp add: ytdlp_name_error)
next
  let ?r = "extract_transcript_with_ytdlp env (''https://www.youtube.com/watch?v='' @ video_id)"
  let ?t = "extract_transcript_details env video_id"
  assume h: "\<not> startswith ?t ''yt-dlp error:'' \<and> \<not> startswith ?t ''Both methods failed.''"
  obtain msg where r: "?r = ''yt-dlp error: '' @ msg"
    using ytdlp_error by blast
  have p: "startswith ?r ''yt-dlp error:''"
    unfolding r by simp
  show "transcript_api env video_id = Inr ?t"
  proof (cases "ytdlp_succeeded ?r")
    case True
    then have "?t = ?r" by (simp add: details_cases)
    with p h show ?thesis by simp
  next
    case False
    show ?thesis
    proof (cases "transcript_api env video_id")
      case (Inl e)
      with False have "?t = ''Both methods failed. yt-dlp result: '' @ ?r"
        by (simp add: details_cases)
      then have "startswith ?t ''Both methods failed.''" by simp
      with h show ?thesis by simp
    next
      case (Inr t)
      with False show ?thesis by (simp add: details_cases)
    qed
  qed
qed

lemma sample_env_fields:
  "make_temp_dir (sample_env api) = Inr ''/tmp/tmpk3v9''"
  "remove_temp_dir (sample_env api) d = Inr ()"
  "list_transcripts (sample_env api) v = api"
  by (simp_all add: sample_env_def)

text \<open>The same at a world where the transcript service has the cues "hello" and "world".\<close>
theorem ytdlp_always_fails_witness:
  "extract_transcript_with_ytdlp (sample_env (Inr [english_transcript (Inr [''hello'', ''world''])]))
      ''https://www.youtube.com/watch?v=abc123'' = ''yt-dlp error: name 'os' is not defined''
   \<and> extract_transcript_details (sample_env (Inr [english_transcript (Inr [''hello'', ''world''])])) ''abc123''
      = ''hello world''
   \<and> transcript_api (sample_env (Inr [english_transcript (Inr [''hello'', ''world''])])) ''abc123''
      = Inr ''hello world''"
proof -
  let ?E = "sample_env (Inr [english_transcript (Inr [''hello'', ''world''])])"
  have t: "extract_transcript_details ?E ''abc123'' = ''hello world''"
    by code_simp
  have h: "make_temp_dir ?E = Inr ''/tmp/tmpk3v9'' \<and> remove_temp_dir ?E ''/tmp/tmpk3v9'' = Inr ()"
    by (simp add: sample_env_fields)
  show ?thesis
    using ytdlp_always_fails [of ?E "''https://www.youtube.com/watch?v=abc123''" "''abc123''"] h t
    by simp
qed

text \<open>
  Claim C4, amended. When the primary result is rejected and the transcript service raises a
  condition other than "video unavailable" and "transcripts disabled",
  \<open>extract_transcript_details\<close> returns \<open>Both methods failed. yt-dlp result: \<close>
  followed by the primary strategy's own result, which is not empty.
\<close>
theorem both_failed_embeds_primary_detail:
  assumes "\<not> ytdlp_succeeded (extract_transcript_with_ytdlp env (''https://www.youtube.com/watch?v='' @ video_id))"
    and "transcript_api env video_id = Inl e"
    and "\<not> (\<exists>m. e = VideoUnavailable m) \<and> \<not> (\<exists>m. e = TranscriptsDisabled m)"
  shows "\<exists>detail. detail \<noteq> []
           \<and> extract_transcript_with_ytdlp env (''https://www.youtube.com/watch?v='' @ video_id) = detail
           \<and> extract_transcript_details env video_id = ''Both methods failed. yt-dlp result: '' @ detail"
proof -
  let ?r = "extract_transcript_with_ytdlp env (''https://www.youtube.com/watch?v='' @ video_id)"
  obtain msg where "?r = ''yt-dlp error: '' @ msg"
    using ytdlp_error by blast
  then have "?r \<noteq> []" by simp
  moreover have "extract_transcript_details env video_id = ''Both methods failed. yt-dlp result: '' @ ?r"
    using assms(1,2) by (simp add: details_cases)
  ultimately show ?thesis by blast
qed

text \<open>The same at a world where the transcript service cannot retrieve a transcript.\<close>
theorem both_failed_embeds_primary_detail_witness:
  "extract_transcript_details (sample_env (Inl (OtherException ''Could not retrieve a transcript''))) ''abc123''
     = ''Both methods failed. yt-dlp result: yt-dlp error: name 'os' is not defined''"
proof -
  let ?E = "sample_env (Inl (OtherException ''Could not retrieve a transcript''))"
  have r: "extract_transcript_with_ytdlp ?E (''https://www.youtube.com/watch?v='' @ ''abc123'')
             = ''yt-dlp error: name 'os' is not defined''"
    by (rule sample_env_ytdlp)
  have h1: "\<not> ytdlp_succeeded (extract_transcript_with_ytdlp ?E (''https://www.youtube.com/watch?v='' @ ''abc123''))"
    unfolding r by (rule sample_not_succeeded)
  have h2: "transcript_api ?E ''abc123'' = Inl (OtherException ''Could not retrieve a transcript'')"
    by (simp add: transcript_api_def bind_exn_def sample_env_fields)
  have h3: "\<not> (\<exists>m. OtherException ''Could not retrieve a transcript'' = VideoUnavailable m)
            \<and> \<not> (\<exists>m. OtherException ''Could not retrieve a transcript'' = TranscriptsDisabled m)"
    by simp
  show ?thesis
    using both_failed_embeds_primary_detail [OF h1 h2 h3] r by auto
qed

lemma short_diagnostic_rejected:
  "\<not> ytdlp_succeeded (''Error: Extracted text too short. VTT content: '' @ preview)"
  by (simp add: ytdlp_succeeded_def)

text \<open>
  Claim C7. When the cleaned text of a caption document has fewer than 10 characters,
  \<open>extract_text_from_vtt\<close> returns the diagnostic value with the first 500 characters of the
  document, and the evaluation of line 146 rejects that value: the result is the outcome of
  the secondary strategy, its text or the composite failure value.
\<close>
theorem short_text_falls_back:
  assumes "fs vtt_file = Inr content" and "length (clean_vtt content) < 10"
  shows "extract_text_from_vtt fs vtt_file
           = ''Error: Extracted text too short. VTT content: '' @ take 500 content
         \<and> \<not> ytdlp_succeeded (extract_text_from_vtt fs vtt_file)
         \<and> evaluate_and_fall_back env video_id (extract_text_from_vtt fs vtt_file)
           = Inr (case transcript_api env video_id of
                    Inr transcript_text \<Rightarrow> transcript_text
                  | Inl api_error \<Rightarrow>
                      ''Both methods failed. yt-dlp result: '' @ extract_text_from_vtt fs vtt_file)"
proof -
  have v: "extract_text_from_vtt fs vtt_file
             = ''Error: Extracted text too short. VTT content: '' @ take 500 content"
    using assms by (simp add: extract_text_from_vtt_def normalize_def)
  have n: "\<not> ytdlp_succeeded (extract_text_from_vtt fs vtt_file)"
    unfolding v by (rule short_diagnostic_rejected)
  have "evaluate_and_fall_back env video_id (extract_text_from_vtt fs vtt_file)
           = Inr (case transcript_api env video_id of
                    Inr transcript_text \<Rightarrow> transcript_text
                  | Inl api_error \<Rightarrow>
                      ''Both methods failed. yt-dlp result: '' @ extract_text_from_vtt fs vtt_file)"
    using n by (simp add: evaluate_and_fall_back_def split: sum.splits)
  with v n show ?thesis by blast
qed

text \<open>The same for a document that holds the header and the text "hi".\<close>
theorem short_text_falls_back_witness:
  "length (clean_vtt (''WEBVTT'' @ [NL, NL] @ ''hi'')) < 10
   \<and> extract_text_from_vtt (\<lambda>_. Inr (''WEBVTT'' @ [NL, NL] @ ''hi'')) ''captions.en.vtt''
       = ''Error: Extracted text too short. VTT content: '' @ ''WEBVTT'' @ [NL, NL] @ ''hi''
   \<and> evaluate_and_fall_back (sample_env (Inr [english_transcript (Inr [''hello'', ''world''])])) ''abc123''
        (extract_text_from_vtt (\<lambda>_. Inr (''WEBVTT'' @ [NL, NL] @ ''hi'')) ''captions.en.vtt'')
       = Inr ''hello world''"
proof -
  let ?E = "sample_env (Inr [english_transcript (Inr [''hello'', ''world''])])"
  let ?F = "\<lambda>_ :: string. (Inr (''WEBVTT'' @ [NL, NL] @ ''hi'') :: exn + string)"
  have h2: "length (clean_vtt (''WEBVTT'' @ [NL, NL] @ ''hi'')) < 10"
    by code_simp
  have t: "transcript_api ?E ''abc123'' = Inr ''hello world''"
    by code_simp
  note w = short_text_falls_back
      [of ?F "''captions.en.vtt''" "''WEBVTT'' @ [NL, NL] @ ''hi''" ?E "''abc123''", OF refl h2]
  have a: "extract_text_from_vtt ?F ''captions.en.vtt''
             = ''Error: Extracted text too short. VTT content: '' @ ''WEBVTT'' @ [NL, NL] @ ''hi''"
    using w [THEN conjunct1] by simp
  have c: "evaluate_and_fall_back ?E ''abc123'' (extract_text_from_vtt ?F ''captions.en.vtt'')
             = Inr ''hello world''"
    using w [THEN conjunct2, THEN conjunct2] unfolding t by simp
  show ?thesis
    by (intro conjI) (rule h2, rule a, rule c)
qed

lemma startswith_iff: "startswith s p \<longleftrightarrow> (\<exists>post. s = p @ post)"
  by (induction s p rule: startswith.induct) auto

lemma contains_iff: "contains s sub \<longleftrightarrow> (\<exists>pre post. s = pre @ sub @ post)"
proof (induction s)
  case Nil
  then show ?case by auto
next
  case (Cons c cs)
  show ?case
  proof
    assume "contains (c # cs) sub"
    then consider "startswith (c # cs) sub" | "contains cs sub" by auto
    then show "\<exists>pre post. c # cs = pre @ sub @ post"
    proof cases
      case 1
      then obtain post where "c # cs = sub @ post" using startswith_iff by blast
      then have "c # cs = [] @ sub @ post" by simp
      then show ?thesis by blast
    next
      case 2
      then obtain pre post where "cs = pre @ sub @ post" using Cons.IH by blast
      then have "c # cs = (c # pre) @ sub @ post" by simp
      then show ?thesis by blast
    qed
  next
    assume "\<exists>pre post. c # cs = pre @ sub @ post"
    then obtain pre post where e: "c # cs = pre @ sub @ post" by blast
    show "contains (c # cs) sub"
    proof (cases pre)
      case Nil
      with e have "startswith (c # cs) sub" using startswith_iff by auto
      then show ?thesis by simp
    next
      case (Cons p ps)
      with e have "cs = ps @ sub @ post" by simp
      then have "contains cs sub" using Cons.IH by blast
      then show ?thesis by simp
    qed
  qed
qed

lemma contains_www: "contains s ''www.youtube.com'' \<Longrightarrow> contains s ''youtube.com''"
proof -
  assume "contains s ''www.youtube.com''"
  then obtain pre post where "s = pre @ ''www.youtube.com'' @ post"
    using contains_iff by blast
  then have "s = (pre @ ''www.'') @ ''youtube.com'' @ post" by simp
  then show ?thesis using contains_iff by blast
qed

text \<open>
  Claim C6, as stated, fails for a URL whose user information holds the short-link host: the
  host of \<open>https://youtu.be@example.org/abc123\<close> is \<open>example.org\<close>, which matches neither
  recognized host, and the extractor returns \<open>abc123\<close>, because the source tests the whole
  network location.
\<close>

theorem other_host_with_userinfo_accepted:
  "(case urlparse (cpython_urllib (\<lambda>_. True) (\<lambda>s. s)) ''https://youtu.be@example.org/abc123'' of
      Inl e \<Rightarrow> None
    | Inr p \<Rightarrow> hostname p) = Some ''example.org''
   \<and> \<not> contains ''example.org'' ''youtu.be''
   \<and> \<not> contains ''example.org'' ''youtube.com''
   \<and> extract_video_id (cpython_urllib (\<lambda>_. True) (\<lambda>s. s)) ''https://youtu.be@example.org/abc123''
       = Inr (Some ''abc123'')"
  by code_simp

text \<open>
  Claim C6, amended. Whatever the library's \<open>urlparse\<close> does: when the network location of
  the URL (user information, host and port) contains neither \<open>youtu.be\<close> nor
  \<open>youtube.com\<close> as a substring, also when \<open>urlparse\<close> raises, \<open>extract_video_id\<close>
  returns \<open>None\<close>.
\<close>
theorem unrecognized_host_no_identifier:
  assumes "\<forall>p. urlparse lib url = Inr p \<longrightarrow>
             \<not> contains (netloc p) ''youtu.be'' \<and> \<not> contains (netloc p) ''youtube.com''"
  shows "extract_video_id lib url = Inr None"
proof (cases "urlparse lib url")
  case (Inl e)
  then show ?thesis
    by (simp add: extract_video_id_def extract_video_id_body_def bind_exn_def)
next
  case (Inr p)
  with assms have n: "\<not> contains (netloc p) ''youtu.be''" "\<not> contains (netloc p) ''youtube.com''"
    by auto
  from n(2) have "\<not> contains (netloc p) ''www.youtube.com''"
    using contains_www by blast
  with n Inr show ?thesis
    by (simp add: extract_video_id_def extract_video_id_body_def bind_exn_def)
qed

text \<open>The same for a URL of another host, under the model of the library.\<close>
theorem unrecognized_host_no_identifier_witness:
  "extract_video_id (cpython_urllib (\<lambda>_. True) (\<lambda>s. s)) ''https://vimeo.com/watch?v=abc123'' = Inr None"
proof -
  let ?L = "cpython_urllib (\<lambda>_. True) (\<lambda>s. s)"
  have u: "urlparse ?L ''https://vimeo.com/watch?v=abc123''
             = Inr \<lparr>scheme = ''https'', netloc = ''vimeo.com'', path = ''/watch'', params = [],
                    query = ''v=abc123'', fragment = []\<rparr>"
    by code_simp
  have h: "\<forall>p. urlparse ?L ''https://vimeo.com/watch?v=abc123'' = Inr p \<longrightarrow>
             \<not> contains (netloc p) ''youtu.be'' \<and> \<not> contains (netloc p) ''youtube.com''"
    unfolding u by auto
  show ?thesis
    using unrecognized_host_no_identifier [OF h] .
qed

text \<open>
  Claim C10. Whatever the library does, and for every input string, \<open>extract_video_id\<close>
  returns normally, an identifier or \<open>None\<close>: every exception of the body is taken by the
  handler. The function reads and writes no state.
\<close>
theorem extract_video_id_returns:
  "\<exists>r. extract_video_id lib url = Inr r"
  by (simp add: extract_video_id_def split: sum.splits)

text \<open>The same for a malformed URL, on which the library raises \<open>ValueError\<close>.\<close>
theorem extract_video_id_returns_witness:
  "\<exists>r. extract_video_id (cpython_urllib (\<lambda>_. True) (\<lambda>s. s)) ''https://[youtu.be/abc'' = Inr r"
  using extract_video_id_returns [of "cpython_urllib (\<lambda>_. True) (\<lambda>s. s)" "''https://[youtu.be/abc''"] .

section \<open>Properties of the caption markup normalizer\<close>


lemma re_sub_no_match: "\<not> has_match m bol s \<Longrightarrow> re_sub m repl bol s = s"
proof (induction s arbitrary: bol)
  case Nil
  then show ?case by simp
next
  case (Cons c cs)
  then have r: "re_sub m repl (c = NL) cs = cs" by simp
  from Cons.prems have "m bol (c # cs) = None \<or> m bol (c # cs) = Some 0"
    by (auto split: option.splits)
  then show ?case using r by auto
qed

lemma is_space_blank [simp]: "is_space CHR '' ''"
  by (simp add: is_space_def)

lemma is_space_NL [simp]: "is_space NL"
  by (simp add: is_space_def)

lemma flat_hd: "flat s \<Longrightarrow> s \<noteq> [] \<Longrightarrow> \<not> is_space (hd s)"
  by (induction s rule: flat.induct) auto

lemma flat_last: "flat s \<Longrightarrow> s \<noteq> [] \<Longrightarrow> \<not> is_space (last s)"
  by (induction s rule: flat.induct) (auto split: if_splits)

lemma flat_space_is_blank: "flat s \<Longrightarrow> c \<in> set s \<Longrightarrow> is_space c \<Longrightarrow> c = CHR '' ''"
  by (induction s rule: flat.induct) (auto split: if_splits)

lemma flat_no_NL: "flat s \<Longrightarrow> NL \<notin> set s"
  using flat_space_is_blank [of s NL] by auto

lemma flat_strip: "flat s \<Longrightarrow> strip s = s"
proof (cases "s = []")
  case True
  then show ?thesis by (simp add: strip_def)
next
  case False
  assume f: "flat s"
  from f False have "\<not> is_space (hd s)" by (rule flat_hd)
  with False have a: "dropWhile is_space s = s" by (cases s) auto
  from f False have "\<not> is_space (last s)" by (rule flat_last)
  with False have "\<not> is_space (hd (rev s))" by (simp add: hd_rev)
  with False have b: "dropWhile is_space (rev s) = rev s" by (cases "rev s") auto
  show ?thesis by (simp add: strip_def a b)
qed

lemma plus_matcher_none: "\<not> P c \<Longrightarrow> plus_matcher P b (c # cs) = None"
  by (simp add: plus_matcher_def)

lemma plus_matcher_some:
  "P c \<Longrightarrow> plus_matcher P b (c # cs) = Some (Suc (length (takeWhile P cs)))"
  by (simp add: plus_matcher_def)

lemma flat_collapse: "flat s \<Longrightarrow> re_sub (plus_matcher is_space) '' '' bol s = s"
proof (induction s arbitrary: bol rule: flat.induct)
  case 1
  then show ?case by simp
next
  case (2 c)
  then show ?case by (simp add: plus_matcher_none)
next
  case (3 c d ds)
  from "3.prems" have c: "\<not> is_space c" by simp
  show ?case
  proof (cases "d = CHR '' ''")
    case True
    with "3.prems" have f: "flat ds" and ne: "ds \<noteq> []" by auto
    from f ne have "\<not> is_space (hd ds)" by (rule flat_hd)
    with ne have t: "takeWhile is_space ds = []" by (cases ds) auto
    have ih: "\<And>b. re_sub (plus_matcher is_space) '' '' b ds = ds"
      using "3.IH"(1) True f by blast
    show ?thesis using c True t ih by (simp add: plus_matcher_none plus_matcher_some)
  next
    case False
    with "3.prems" have f: "flat (d # ds)" by auto
    have ih: "\<And>b. re_sub (plus_matcher is_space) '' '' b (d # ds) = d # ds"
      using "3.IH"(2) False f by blast
    from f have d: "\<not> is_space d" using flat_hd [of "d # ds"] by simp
    have "re_sub (plus_matcher is_space) '' '' bol (c # d # ds)
            = c # re_sub (plus_matcher is_space) '' '' (c = NL) (d # ds)"
      using c by (simp add: plus_matcher_none)
    then show ?thesis by (simp only: ih)
  qed
qed

lemma startswith_set: "startswith s p \<Longrightarrow> set p \<subseteq> set s"
  by (induction s p rule: startswith.induct) auto

lemma match_lits: "match_atoms (map Lit p) s = startswith s p"
  by (induction s p rule: startswith.induct) auto

lemma no_NL_newlines: "NL \<notin> set s \<Longrightarrow> \<not> has_match (plus_matcher (\<lambda>c. c = NL)) bol s"
  by (induction s arbitrary: bol) (auto simp: plus_matcher_none)

lemma no_NL_header: "NL \<notin> set s \<Longrightarrow> \<not> has_match (atoms_matcher header_pattern) bol s"
proof (induction s arbitrary: bol)
  case Nil
  then show ?case by simp
next
  case (Cons c cs)
  have "\<not> match_atoms header_pattern (c # cs)"
  proof
    assume "match_atoms header_pattern (c # cs)"
    then have "startswith (c # cs) (''WEBVTT'' @ [NL, NL])"
      unfolding header_pattern_def match_lits .
    then have "set (''WEBVTT'' @ [NL, NL]) \<subseteq> set (c # cs)" by (rule startswith_set)
    with Cons.prems show False by auto
  qed
  with Cons show ?case by (simp add: atoms_matcher_def)
qed

lemma no_NL_linenum: "NL \<notin> set s \<Longrightarrow> \<not> has_match linenum_matcher bol s"
proof (induction s arbitrary: bol)
  case Nil
  then show ?case by simp
next
  case (Cons c cs)
  have "linenum_matcher bol (c # cs) = None"
  proof (rule ccontr)
    assume "linenum_matcher bol (c # cs) \<noteq> None"
    then have "startswith (drop (length (takeWhile is_digit (c # cs))) (c # cs)) [NL]"
      by (auto simp: linenum_matcher_def Let_def split: if_splits)
    then have "set [NL] \<subseteq> set (drop (length (takeWhile is_digit (c # cs))) (c # cs))"
      by (rule startswith_set)
    then have "NL \<in> set (c # cs)" using set_drop_subset by fastforce
    with Cons.prems show False by simp
  qed
  with Cons show ?case by simp
qed

lemma clean_vtt_flat:
  assumes "flat x"
    and "\<not> has_match (atoms_matcher timestamp_pattern) True x"
    and "\<not> has_match tag_matcher True x"
  shows "clean_vtt x = x"
proof -
  have n: "NL \<notin> set x" using assms(1) by (rule flat_no_NL)
  show ?thesis
    unfolding clean_vtt_def Let_def
    by (simp add: re_sub_no_match assms(2,3) no_NL_header [OF n] no_NL_newlines [OF n]
        no_NL_linenum [OF n] flat_collapse [OF assms(1)] flat_strip [OF assms(1)])
qed


lemma has_match_atoms_bol:
  "has_match (atoms_matcher p) b s = has_match (atoms_matcher p) b' s"
  by (induction s arbitrary: b b') (auto simp: atoms_matcher_def)

lemma has_match_tag_bol: "has_match tag_matcher b s = has_match tag_matcher b' s"
proof (induction s arbitrary: b b')
  case Nil
  then show ?case by simp
next
  case (Cons c cs)
  have "tag_matcher b (c # cs) = tag_matcher b' (c # cs)"
    by (simp add: tag_matcher_def)
  with Cons show ?case by auto
qed

lemma flat_append_blank:
  "flat a \<Longrightarrow> a \<noteq> [] \<Longrightarrow> flat b \<Longrightarrow> b \<noteq> [] \<Longrightarrow> flat (a @ CHR '' '' # b)"
proof (induction a rule: flat.induct)
  case 1
  then show ?case by simp
next
  case (2 c)
  then show ?case by simp
next
  case (3 c d ds)
  then show ?case by (cases ds) (auto split: if_splits)
qed

lemma diagnostic_flat:
  assumes "flat x" and "x \<noteq> []"
  shows "flat (''Error: Extracted text too short. VTT content: '' @ x)"
proof -
  have "flat ''Error: Extracted text too short. VTT content:''"
    by code_simp
  then have "flat (''Error: Extracted text too short. VTT content:'' @ CHR '' '' # x)"
    using assms by (intro flat_append_blank) simp_all
  then show ?thesis by simp
qed

lemma diagnostic_no_timestamp:
  assumes "\<not> has_match (atoms_matcher timestamp_pattern) True x"
  shows "\<not> has_match (atoms_matcher timestamp_pattern) True
           (''Error: Extracted text too short. VTT content: '' @ x)"
proof -
  have a: "\<And>c cs b. \<not> is_digit c \<Longrightarrow>
             has_match (atoms_matcher timestamp_pattern) b (c # cs)
               = has_match (atoms_matcher timestamp_pattern) True cs"
    using has_match_atoms_bol [of timestamp_pattern _ _ True]
    by (simp add: atoms_matcher_def timestamp_pattern_def clock_pattern_def)
  show ?thesis using assms by (simp add: a is_digit_def del: has_match.simps(2))
qed

lemma diagnostic_no_tag:
  assumes "\<not> has_match tag_matcher True x"
  shows "\<not> has_match tag_matcher True (''Error: Extracted text too short. VTT content: '' @ x)"
proof -
  have a: "\<And>c cs b. c \<noteq> CHR ''<'' \<Longrightarrow>
             has_match tag_matcher b (c # cs) = has_match tag_matcher True cs"
    using has_match_tag_bol [of _ _ True]
    by (simp add: tag_matcher_def)
  show ?thesis using assms by (simp add: a del: has_match.simps(2))
qed

text \<open>
  Claim C8, amended. For every flat text \<open>x\<close> that is not empty and holds no cue markup,
  \<open>normalize (normalize x) = normalize x\<close>; when \<open>x\<close> has at least 10 characters,
  \<open>normalize x = x\<close>. (A shorter \<open>x\<close> gives the diagnostic value, which is flat again.)
\<close>
theorem normalize_idempotent_on_flat_text:
  assumes "flat x" and "x \<noteq> []" and "no_cue_markup x"
  shows "normalize (normalize x) = normalize x \<and> (10 \<le> length x \<longrightarrow> normalize x = x)"
proof -
  from assms(3) have ts: "\<not> has_match (atoms_matcher timestamp_pattern) True x"
    and tg: "\<not> has_match tag_matcher True x"
    by (simp_all add: no_cue_markup_def)
  have c: "clean_vtt x = x"
    using assms(1) ts tg by (rule clean_vtt_flat)
  show ?thesis
  proof (cases "10 \<le> length x")
    case True
    then have "normalize x = x" by (simp add: normalize_def c)
    then show ?thesis by simp
  next
    case False
    let ?d = "''Error: Extracted text too short. VTT content: '' @ x"
    from False have n: "normalize x = ?d"
      by (simp add: normalize_def c)
    have "clean_vtt ?d = ?d"
      using diagnostic_flat [OF assms(1,2)] diagnostic_no_timestamp [OF ts] diagnostic_no_tag [OF tg]
      by (rule clean_vtt_flat)
    then have "normalize ?d = ?d"
      by (simp add: normalize_def)
    with n False show ?thesis by simp
  qed
qed

text \<open>The same for the text "hello world".\<close>
theorem normalize_idempotent_on_flat_text_witness:
  "flat ''hello world'' \<and> no_cue_markup ''hello world''
   \<and> normalize ''hello world'' = ''hello world''
   \<and> normalize (normalize ''hello world'') = normalize ''hello world''"
proof -
  have f: "flat ''hello world''" by code_simp
  have ne: "''hello world'' \<noteq> []" by simp
  have m: "no_cue_markup ''hello world''" by code_simp
  show ?thesis
    using normalize_idempotent_on_flat_text [OF f ne m] f m by simp
qed

text \<open>
  Claim C8, as stated, fails for the empty text, which is flat and holds no cue markup: its
  diagnostic value ends with a blank, which the second normalization strips.
\<close>
theorem normalize_not_idempotent_on_empty_text:
  "flat [] \<and> no_cue_markup [] \<and> normalize (normalize []) \<noteq> normalize []"
  by code_simp

text \<open>
  Claim C5. For a caption document of three numbered cues with timestamp ranges and inline
  tags, the result still holds the cue numbers 1, 2 and 3: the substitution of line 120, meant
  to remove them, looks for a line feed after the digits, and line 119 has replaced every line
  feed by a blank before.
\<close>
theorem cue_numbers_survive_normalization:
  "normalize sample_vtt = ''1 hello world 2 second cue 3 third cue''"
  by code_simp

text \<open>
  On every input, the substitution of line 119 leaves no line feed, so the substitution of
  line 120 changes nothing.
\<close>
lemma newlines_removed: "NL \<notin> set (re_sub (plus_matcher (\<lambda>c. c = NL)) '' '' bol s)"
proof (induction s arbitrary: bol rule: length_induct)
  case (1 s)
  show ?case
  proof (cases s)
    case Nil
    then show ?thesis by simp
  next
    case (Cons c cs)
    show ?thesis
    proof (cases "c = NL")
      case True
      have "length (drop (length (takeWhile (\<lambda>c. c = NL) cs)) cs) < length s"
        using Cons by simp
      then have "NL \<notin> set (re_sub (plus_matcher (\<lambda>c. c = NL)) '' '' b
                   (drop (length (takeWhile (\<lambda>c. c = NL) cs)) cs))" for b
        using 1 by blast
      then show ?thesis using Cons True by (simp add: plus_matcher_some)
    next
      case False
      have "NL \<notin> set (re_sub (plus_matcher (\<lambda>c. c = NL)) '' '' b cs)" for b
        using 1 Cons by simp
      then show ?thesis using Cons False by (simp add: plus_matcher_none)
    qed
  qed
qed

lemma linenum_step_is_identity:
  "re_sub linenum_matcher [] True (re_sub (plus_matcher (\<lambda>c. c = NL)) '' '' True s)
     = re_sub (plus_matcher (\<lambda>c. c = NL)) '' '' True s"
  by (rule re_sub_no_match) (rule no_NL_linenum [OF newlines_removed])

section \<open>Canonical watch URLs\<close>


lemma urlsplit_watch:
  "urlsplit netloc_ok (''https://www.youtube.com/watch?'' @ q)
     = Inr \<lparr>scheme = ''https'', netloc = ''www.youtube.com'', path = ''/watch'', params = [],
            query = takeWhile (\<lambda>c. c \<noteq> CHR ''#'') (filter (\<lambda>c. c \<notin> set [CHR 0x09, CHR 0x0D, NL]) q),
            fragment = drop 1 (dropWhile (\<lambda>c. c \<noteq> CHR ''#'') (filter (\<lambda>c. c \<notin> set [CHR 0x09, CHR 0x0D, NL]) q))\<rparr>"
  by (simp add: urlsplit_def split_scheme_def splitnetloc_def split1_def Let_def
      scheme_chars_def ascii_lowercase_def ascii_uppercase_def lower_char_def)

lemma urlparse_watch:
  "urlparse_model netloc_ok (''https://www.youtube.com/watch?'' @ q)
     = Inr \<lparr>scheme = ''https'', netloc = ''www.youtube.com'', path = ''/watch'', params = [],
            query = takeWhile (\<lambda>c. c \<noteq> CHR ''#'') (filter (\<lambda>c. c \<notin> set [CHR 0x09, CHR 0x0D, NL]) q),
            fragment = drop 1 (dropWhile (\<lambda>c. c \<noteq> CHR ''#'') (filter (\<lambda>c. c \<notin> set [CHR 0x09, CHR 0x0D, NL]) q))\<rparr>"
  unfolding urlparse_model_def urlsplit_watch by (simp add: bind_exn_def uses_params_def)


lemma split_on_absent: "c \<notin> set a \<Longrightarrow> split_on c a = [a]"
  by (induction a) auto

lemma split_on_append: "c \<notin> set a \<Longrightarrow> split_on c (a @ c # r) = a # split_on c r"
  by (induction a) auto

lemma split_on_fields:
  assumes "\<forall>kv \<in> set before. CHR ''&'' \<notin> set (query_field kv)"
  shows "split_on CHR ''&'' (concat (map (\<lambda>kv. query_field kv @ ''&'') before) @ r)
           = map query_field before @ split_on CHR ''&'' r"
  using assms
proof (induction before)
  case Nil
  then show ?case by simp
next
  case (Cons kv before)
  then have a: "CHR ''&'' \<notin> set (query_field kv)" by simp
  have "split_on CHR ''&'' (query_field kv @ CHR ''&'' # (concat (map (\<lambda>kv. query_field kv @ ''&'') before) @ r))
          = query_field kv # split_on CHR ''&'' (concat (map (\<lambda>kv. query_field kv @ ''&'') before) @ r)"
    using a by (rule split_on_append)
  with Cons show ?case by simp
qed

lemma map_filter_append: "List.map_filter f (xs @ ys) = List.map_filter f xs @ List.map_filter f ys"
  by (simp add: List.map_filter_def)

lemma unquote_plain: "CHR ''%'' \<notin> set s \<Longrightarrow> unquote pct s = s"
  by (simp add: unquote_def)

lemma plus_to_space_plain: "CHR ''+'' \<notin> set s \<Longrightarrow> plus_to_space s = s"
  by (induction s) (auto simp: plus_to_space_def)

lemma split1_eq: "c \<notin> set k \<Longrightarrow> split1 c (k @ c # v) = (k, v)"
  by (simp add: split1_def takeWhile_append dropWhile_append)

lemma parse_field_other:
  assumes "other_field pct kv" and "parse_field pct (query_field kv) = Some p"
  shows "fst p \<noteq> ''v''"
proof -
  obtain k w where kv: "kv = (k, w)" by (cases kv)
  from assms(1) kv have e: "CHR ''='' \<notin> set k"
    and n: "unquote pct (plus_to_space k) \<noteq> ''v''"
    by (auto simp: other_field_def)
  have s: "split1 CHR ''='' (k @ CHR ''='' # w) = (k, w)"
    using e by (rule split1_eq)
  from assms(2) have "parse_field pct (k @ CHR ''='' # w) = Some p"
    by (simp add: kv query_field_def)
  then have "fst p = unquote pct (plus_to_space k)"
    unfolding parse_field_def s by (auto split: if_splits)
  with n show ?thesis by simp
qed

lemma parse_fields_other:
  assumes "\<forall>kv \<in> set before. other_field pct kv"
  shows "\<forall>p \<in> set (List.map_filter (parse_field pct) (map query_field before)). fst p \<noteq> ''v''"
  using assms
proof (induction before)
  case Nil
  then show ?case by (simp add: List.map_filter_simps)
next
  case (Cons kv before)
  then have o: "other_field pct kv" by simp
  show ?case
  proof (cases "parse_field pct (query_field kv)")
    case None
    with Cons show ?thesis by (simp add: List.map_filter_simps)
  next
    case (Some p)
    with parse_field_other [OF o Some] Cons show ?thesis
      by (simp add: List.map_filter_simps)
  qed
qed

lemma id_char_plain: "id_char c \<Longrightarrow> c \<notin> set (''&=#%+'' @ [CHR 0x09, CHR 0x0D, NL])"
  by (auto simp: id_char_def ascii_lowercase_def ascii_uppercase_def)

lemma parse_field_v:
  assumes "ident \<noteq> []" and "\<forall>c \<in> set ident. id_char c"
  shows "parse_field pct (''v='' @ ident) = Some (''v'', ident)"
proof -
  have p: "CHR ''+'' \<notin> set ident" and q: "CHR ''%'' \<notin> set ident"
    using assms(2) id_char_plain by auto
  have s: "split1 CHR ''='' (''v='' @ ident) = (''v'', ident)"
    using split1_eq [of "CHR ''=''" "''v''" ident] by simp
  have u: "unquote pct (plus_to_space ''v'') = ''v''"
    by (simp add: unquote_def plus_to_space_def)
  show ?thesis
    using assms(1) unfolding parse_field_def s
    by (simp add: u plus_to_space_plain [OF p] unquote_plain [OF q])
qed

lemma foldl_add_pair_other:
  "\<forall>p \<in> set ps. fst p \<noteq> k \<Longrightarrow> foldl add_pair d ps k = d k"
  by (induction ps arbitrary: d) (auto simp: add_pair_def split: option.splits)

lemma foldl_add_pair_first:
  "d k = Some (x # xs) \<Longrightarrow> \<exists>ys. foldl add_pair d ps k = Some (x # ys)"
proof (induction ps arbitrary: d xs)
  case Nil
  then show ?case by simp
next
  case (Cons p ps)
  have "\<exists>zs. add_pair d p k = Some (x # zs)"
    using Cons.prems by (auto simp: add_pair_def split: option.splits)
  then obtain zs where "add_pair d p k = Some (x # zs)" by blast
  from Cons.IH [of "add_pair d p" zs, OF this] show ?case by simp
qed

lemma parse_qs_first_v:
  assumes "\<forall>p \<in> set ps. fst p \<noteq> ''v''"
  shows "\<exists>ys. foldl add_pair Map.empty (ps @ (''v'', ident) # qs) ''v'' = Some (ident # ys)"
proof -
  have "foldl add_pair Map.empty ps ''v'' = None"
    using foldl_add_pair_other [OF assms, of Map.empty] by simp
  then have "add_pair (foldl add_pair Map.empty ps) (''v'', ident) ''v'' = Some [ident]"
    by (simp add: add_pair_def)
  from foldl_add_pair_first
      [of "add_pair (foldl add_pair Map.empty ps) (''v'', ident)" "''v''" ident "[]" qs, OF this]
  show ?thesis by simp
qed


lemma other_field_chars:
  assumes "other_field pct kv"
  shows "set (query_field kv @ ''&'') \<inter> set (''#'' @ [CHR 0x09, CHR 0x0D, NL]) = {}"
    and "CHR ''&'' \<notin> set (query_field kv)"
  using assms by (auto simp: other_field_def query_field_def)

lemma other_fields_chars:
  assumes "\<forall>kv \<in> set before. other_field pct kv"
  shows "set (concat (map (\<lambda>kv. query_field kv @ ''&'') before))
           \<inter> set (''#'' @ [CHR 0x09, CHR 0x0D, NL]) = {}"
  using assms
proof (induction before)
  case Nil
  then show ?case by simp
next
  case (Cons kv before)
  then have "other_field pct kv" by simp
  from other_field_chars(1) [OF this] Cons show ?case
    by (simp add: Int_Un_distrib2)
qed

lemma takeWhile_two:
  "\<forall>c \<in> set a. P c \<Longrightarrow> \<forall>c \<in> set b. P c \<Longrightarrow>
     takeWhile P (a @ b @ r) = a @ b @ takeWhile P r"
  by (simp add: takeWhile_append2)

lemma query_of_watch_url:
  assumes "\<forall>c \<in> set ident. id_char c"
    and "\<forall>kv \<in> set before. other_field pct kv"
  shows "takeWhile (\<lambda>c. c \<noteq> CHR ''#'')
           (filter (\<lambda>c. c \<notin> set [CHR 0x09, CHR 0x0D, NL])
              (concat (map (\<lambda>kv. query_field kv @ ''&'') before) @ ''v='' @ ident @ rest))
         = concat (map (\<lambda>kv. query_field kv @ ''&'') before) @ ''v='' @ ident
             @ takeWhile (\<lambda>c. c \<noteq> CHR ''#'') (filter (\<lambda>c. c \<notin> set [CHR 0x09, CHR 0x0D, NL]) rest)"
proof -
  let ?B = "concat (map (\<lambda>kv. query_field kv @ ''&'') before)"
  let ?ok = "\<lambda>c. c \<notin> set [CHR 0x09, CHR 0x0D, NL]"
  have b: "set ?B \<inter> set (''#'' @ [CHR 0x09, CHR 0x0D, NL]) = {}"
    using assms(2) by (rule other_fields_chars)
  have i: "\<forall>c \<in> set ident. c \<notin> set (''&=#%+'' @ [CHR 0x09, CHR 0x0D, NL])"
    using assms(1) id_char_plain by blast
  have fb: "filter ?ok ?B = ?B"
    using b by (intro filter_True) auto
  have fi: "filter ?ok ident = ident"
    using i by (intro filter_True) auto
  have fv: "filter ?ok ''v='' = ''v=''" by simp
  have f: "filter ?ok (?B @ ''v='' @ ident @ rest) = ?B @ ''v='' @ ident @ filter ?ok rest"
    by (simp only: filter_append fb fi fv)
  have tb: "\<forall>c \<in> set ?B. c \<noteq> CHR ''#''" using b by auto
  have ti: "\<forall>c \<in> set ident. c \<noteq> CHR ''#''" using i by auto
  have tv: "\<forall>c \<in> set (''v='' @ ident). c \<noteq> CHR ''#''" using ti by simp
  have "takeWhile (\<lambda>c. c \<noteq> CHR ''#'') (?B @ (''v='' @ ident) @ filter ?ok rest)
          = ?B @ (''v='' @ ident) @ takeWhile (\<lambda>c. c \<noteq> CHR ''#'') (filter ?ok rest)"
    using tb tv by (rule takeWhile_two)
  then show ?thesis unfolding f by simp
qed

lemma tail_shape:
  assumes "rest = [] \<or> hd rest = CHR ''&'' \<or> hd rest = CHR ''#''"
  shows "takeWhile (\<lambda>c. c \<noteq> CHR ''#'') (filter (\<lambda>c. c \<notin> set [CHR 0x09, CHR 0x0D, NL]) rest) = []
         \<or> (\<exists>t. takeWhile (\<lambda>c. c \<noteq> CHR ''#'') (filter (\<lambda>c. c \<notin> set [CHR 0x09, CHR 0x0D, NL]) rest)
                  = CHR ''&'' # t)"
  using assms by (cases rest) auto

lemma v_field_first:
  assumes "\<forall>c \<in> set ident. id_char c" and "tail = [] \<or> (\<exists>t. tail = CHR ''&'' # t)"
  shows "\<exists>fields. split_on CHR ''&'' (''v='' @ ident @ tail) = (''v='' @ ident) # fields"
proof -
  have a: "CHR ''&'' \<notin> set (''v='' @ ident)"
    using assms(1) id_char_plain by auto
  from assms(2) show ?thesis
  proof
    assume "tail = []"
    then show ?thesis using split_on_absent [OF a] by simp
  next
    assume "\<exists>t. tail = CHR ''&'' # t"
    then obtain t where "tail = CHR ''&'' # t" by blast
    then show ?thesis using split_on_append [OF a, of t] by simp
  qed
qed

lemma canonical_body:
  assumes "urlparse lib url = Inr p"
    and "\<not> contains (netloc p) ''youtu.be''"
    and "contains (netloc p) ''youtube.com''"
    and "parse_qs lib (query p) = Inr m"
    and "m ''v'' = Some (x # xs)"
  shows "extract_video_id lib url = Inr (Some x)"
  using assms by (simp add: extract_video_id_def extract_video_id_body_def bind_exn_def)

text \<open>
  Claim C9. For a canonical watch URL whose query holds \<open>v=ident\<close>, with a non-empty
  identifier of letters, digits, hyphens and underscores, preceded by any number of fields
  of other names and followed by anything that starts a further field or a fragment,
  \<open>extract_video_id\<close> returns exactly \<open>ident\<close>, under the model of the library and
  whatever its two parameters do.
\<close>
theorem canonical_url_identifier:
  assumes "ident \<noteq> []" and "\<forall>c \<in> set ident. id_char c"
    and "\<forall>kv \<in> set before. other_field pct kv"
    and "rest = [] \<or> hd rest = CHR ''&'' \<or> hd rest = CHR ''#''"
  shows "extract_video_id (cpython_urllib netloc_ok pct) (watch_url before ident rest)
           = Inr (Some ident)"
proof -
  let ?B = "concat (map (\<lambda>kv. query_field kv @ ''&'') before)"
  let ?tail = "takeWhile (\<lambda>c. c \<noteq> CHR ''#'') (filter (\<lambda>c. c \<notin> set [CHR 0x09, CHR 0x0D, NL]) rest)"
  let ?q = "?B @ ''v='' @ ident @ ?tail"
  obtain frag where u: "urlparse_model netloc_ok (watch_url before ident rest)
      = Inr \<lparr>scheme = ''https'', netloc = ''www.youtube.com'', path = ''/watch'', params = [],
             query = ?q, fragment = frag\<rparr>"
    unfolding watch_url_def urlparse_watch query_of_watch_url [OF assms(2,3)] by simp
  have amp: "\<forall>kv \<in> set before. CHR ''&'' \<notin> set (query_field kv)"
    using assms(3) other_field_chars(2) by blast
  obtain fields where v: "split_on CHR ''&'' (''v='' @ ident @ ?tail) = (''v='' @ ident) # fields"
    using v_field_first [OF assms(2) tail_shape [OF assms(4)]] by blast
  have sp: "split_on CHR ''&'' ?q = map query_field before @ (''v='' @ ident) # fields"
    using split_on_fields [OF amp, of "''v='' @ ident @ ?tail"] v by simp
  have ne: "?q \<noteq> []" by simp
  have pq: "parse_qsl pct ?q
              = List.map_filter (parse_field pct) (map query_field before)
                  @ (''v'', ident) # List.map_filter (parse_field pct) fields"
    unfolding parse_qsl_def sp
    using ne parse_field_v [OF assms(1,2), of pct]
    by (simp add: map_filter_append List.map_filter_simps)
  obtain ys where d: "foldl add_pair Map.empty (parse_qsl pct ?q) ''v'' = Some (ident # ys)"
    unfolding pq using parse_qs_first_v [OF parse_fields_other [OF assms(3)]] by blast
  let ?p = "\<lparr>scheme = ''https'', netloc = ''www.youtube.com'', path = ''/watch'', params = [],
             query = ?q, fragment = frag\<rparr>"
  have up: "urlparse (cpython_urllib netloc_ok pct) (watch_url before ident rest) = Inr ?p"
    using u by (simp only: cpython_urllib_def urllib.simps)
  have c1: "\<not> contains (netloc ?p) ''youtu.be''" by simp
  have c2: "contains (netloc ?p) ''youtube.com''" by simp
  have pm: "parse_qs (cpython_urllib netloc_ok pct) (query ?p)
              = Inr (foldl add_pair Map.empty (parse_qsl pct ?q))"
    by (simp only: cpython_urllib_def urllib.simps parse_qs_model_def parse_result.simps)
  show ?thesis
    using up c1 c2 pm d by (rule canonical_body)
qed

text \<open>
  The scenario of the specification: the URL \<open>https://www.youtube.com/watch?v=abc123&t=30s\<close>
  gives \<open>abc123\<close>.
\<close>
theorem canonical_url_identifier_witness:
  "extract_video_id (cpython_urllib (\<lambda>_. True) (\<lambda>s. s)) ''https://www.youtube.com/watch?v=abc123&t=30s''
     = Inr (Some ''abc123'')"
proof -
  have h1: "''abc123'' \<noteq> []" by simp
  have h2: "\<forall>c \<in> set ''abc123''. id_char c"
    by (simp add: id_char_def ascii_lowercase_def)
  have h3: "\<forall>kv \<in> set ([] :: (string \<times> string) list). other_field (\<lambda>s. s) kv" by simp
  have h4: "''&t=30s'' = [] \<or> hd ''&t=30s'' = CHR ''&'' \<or> hd ''&t=30s'' = CHR ''#''" by simp
  show ?thesis
    using canonical_url_identifier [OF h1 h2 h3 h4, of "\<lambda>_. True"]
    by (simp add: watch_url_def)
qed

end
